theory Spec2Isabelle
  imports Main "HOL-Library.Word" "HOL-Library.Signed_Division"
begin

section \<open>Numitron six-digit clock: glyph table, display transport, encoders\<close>

text \<open>
  The main sketch keeps its frame in the global \<^verbatim>\<open>byte digit[6]\<close>, looks characters up
  in the parallel tables \<^verbatim>\<open>knownChars\<close> and \<^verbatim>\<open>segData\<close>, and shifts the frame out over
  SPI. The Step 5 tutorial sketch has the same transport and a ten-entry table \<^verbatim>\<open>segments\<close>.

  An array access of the C source is a branch of the model: a table read or a frame write
  whose index is outside the array gives \<open>Inl OutOfBounds\<close>, since C defines no value for it.
\<close>

subsection \<open>Data\<close>

type_synonym byte = "8 word"

datatype fault = OutOfBounds

datatype level = LOW | HIGH

text \<open>
  What leaves the processor towards the TLC5916 chain: \<^verbatim>\<open>SPI.transfer(b)\<close> and
  \<^verbatim>\<open>digitalWrite(LATCH, v)\<close>. A transfer carries the value of the array read that
  produced its argument.
\<close>

datatype wire = Transfer "fault + byte" | Latch level

text \<open>The output-enable pin is driven by \<^verbatim>\<open>digitalWrite\<close> or by \<^verbatim>\<open>analogWrite\<close>.\<close>

datatype drive = Digital level | Pwm byte

record clock =
  digit :: "byte list"
  useLocalTime :: bool
  OE :: drive
  bus :: "wire list"

text \<open>The compile-time switches of the sketch.\<close>

record config =
  LOCAL_FORMAT_12HR :: bool
  UTC_FORMAT_12HR :: bool
  HOUR_LEADING_ZERO :: bool

text \<open>The switches as the sketch sets them.\<close>

definition sketch_config :: config where
  "sketch_config =
     \<lparr>LOCAL_FORMAT_12HR = True, UTC_FORMAT_12HR = False, HOUR_LEADING_ZERO = False\<rparr>"

definition knownChars :: string where
  "knownChars =
     ''0123456789AbCcdEFGHhIiJLlNnOoPqrStUuyZ _-=?[]'' @ [CHR 0x27, CHR 0x22, CHR ''*'']"

text \<open>Bit order dcagxfeb, most significant bit first; one entry more than \<open>knownChars\<close>.\<close>

definition segData :: "byte list" where
  "segData =
    [0xE7, 0x41, 0xB3, 0xF1, 0x55, 0xF4, 0xF6, 0x61, 0xF7, 0xF5,
     0x77, 0xD6, 0xA6, 0x92, 0xD3, 0xB6, 0x36, 0xE6, 0x57, 0x56,
     0x06, 0x40, 0xC1, 0x86, 0x82, 0x67, 0x52, 0xE7, 0xD2, 0x37,
     0x75, 0x12, 0xF4, 0x96, 0xC7, 0xC2, 0xD5, 0xB3,
     0x00, 0x80, 0x10, 0x90, 0x33, 0xA6, 0xE1, 0x04, 0x05, 0x35,
     0x00]"

text \<open>The table of the Step 5 sketch.\<close>

definition segments :: "byte list" where
  "segments = [0xE7, 0x41, 0xB3, 0xF1, 0x55, 0xF4, 0xF6, 0x61, 0xF7, 0xF5]"

text \<open>The duty table local to \<^verbatim>\<open>setBrightness\<close>.\<close>

definition data :: "byte list" where
  "data = [255, 172, 160, 140, 120, 100, 80, 60, 40, 20, 0]"

subsection \<open>Array access\<close>

definition table_read :: "byte list \<Rightarrow> int \<Rightarrow> fault + byte" where
  "table_read tab i =
     (if 0 \<le> i \<and> i < int (length tab) then Inr (tab ! nat i) else Inl OutOfBounds)"

definition read_digit :: "clock \<Rightarrow> int \<Rightarrow> fault + byte" where
  "read_digit st i = (if 0 \<le> i \<and> i < 6 then Inr (digit st ! nat i) else Inl OutOfBounds)"

definition put :: "nat \<Rightarrow> byte \<Rightarrow> clock \<Rightarrow> clock" where
  "put i b st = st\<lparr>digit := (digit st)[i := b]\<rparr>"

definition write_digit :: "nat \<Rightarrow> byte \<Rightarrow> clock \<Rightarrow> fault + clock" where
  "write_digit i b st = (if i < 6 then Inr (put i b st) else Inl OutOfBounds)"

definition thenF :: "fault + 'a \<Rightarrow> ('a \<Rightarrow> fault + 'b) \<Rightarrow> fault + 'b" where
  "thenF r k = (case r of Inl e \<Rightarrow> Inl e | Inr v \<Rightarrow> k v)"

text \<open>
  A C string is the characters before the first NUL; a list stands for the bytes at the
  pointer, with the terminator after its last element.
\<close>

definition strlen :: "string \<Rightarrow> nat" where
  "strlen s = length (takeWhile (\<lambda>c. c \<noteq> CHR 0x00) s)"

definition wf_clock :: "clock \<Rightarrow> bool" where
  "wf_clock st = (length (digit st) = 6)"

definition power_on :: clock where
  "power_on = \<lparr>digit = [0, 0, 0, 0, 0, 0], useLocalTime = True, OE = Digital LOW, bus = []\<rparr>"

subsection \<open>Glyph table\<close>

function alpha_scan :: "char \<Rightarrow> nat \<Rightarrow> nat" where
  "alpha_scan c i =
     (if i < strlen knownChars \<and> c \<noteq> knownChars ! i then alpha_scan c (i + 1) else i)"
  by pat_completeness auto
termination
  by (relation "measure (\<lambda>(c, i). strlen knownChars - i)") auto

definition alpha :: "char \<Rightarrow> fault + byte" where
  "alpha c = table_read segData (int (alpha_scan c 0))"

subsection \<open>Display transport\<close>

definition SPI_transfer :: "fault + byte \<Rightarrow> clock \<Rightarrow> clock" where
  "SPI_transfer v st = st\<lparr>bus := bus st @ [Transfer v]\<rparr>"

definition digitalWrite_LATCH :: "level \<Rightarrow> clock \<Rightarrow> clock" where
  "digitalWrite_LATCH v st = st\<lparr>bus := bus st @ [Latch v]\<rparr>"

function writeDisplay_loop :: "int \<Rightarrow> clock \<Rightarrow> clock" where
  "writeDisplay_loop i st =
     (if i \<ge> 0 then writeDisplay_loop (i - 1) (SPI_transfer (read_digit st i) st) else st)"
  by pat_completeness auto
termination
  by (relation "measure (\<lambda>(i, st). nat (i + 1))") auto

definition writeDisplay :: "clock \<Rightarrow> clock" where
  "writeDisplay st = digitalWrite_LATCH LOW (digitalWrite_LATCH HIGH (writeDisplay_loop 6 st))"

definition enableDisplay :: "bool \<Rightarrow> clock \<Rightarrow> clock" where
  "enableDisplay on st = st\<lparr>OE := Digital (if on then LOW else HIGH)\<rparr>"

definition setBrightness :: "int \<Rightarrow> clock \<Rightarrow> fault + clock" where
  "setBrightness lvl st =
     (if lvl \<ge> 0 \<and> lvl \<le> 10
      then thenF (table_read data lvl) (\<lambda>d. Inr (st\<lparr>OE := Pwm d\<rparr>))
      else Inr st)"

subsection \<open>Encoders\<close>

definition mode12h :: "config \<Rightarrow> clock \<Rightarrow> bool" where
  "mode12h cfg st =
     ((useLocalTime st \<and> LOCAL_FORMAT_12HR cfg) \<or> (\<not> useLocalTime st \<and> UTC_FORMAT_12HR cfg))"

text \<open>The two consecutive tests of the twelve-hour branch.\<close>

definition to12 :: "int \<Rightarrow> int" where
  "to12 h = (let h1 = (if h = 0 then 12 else h) in if h1 > 12 then h1 - 12 else h1)"

text \<open>
  \<open>showTime\<close> takes the values of \<^verbatim>\<open>hour(t)\<close>, \<^verbatim>\<open>minute(t)\<close> and \<^verbatim>\<open>second(t)\<close>.
  C's \<^verbatim>\<open>/\<close> and \<^verbatim>\<open>%\<close> truncate towards zero: \<open>sdiv\<close> and \<open>smod\<close>.
\<close>

definition showTime :: "config \<Rightarrow> int \<Rightarrow> int \<Rightarrow> int \<Rightarrow> clock \<Rightarrow> fault + clock" where
  "showTime cfg h0 m s st =
     (let h = (if mode12h cfg st then to12 h0 else h0) in
      thenF (if h < 10 \<and> \<not> HOUR_LEADING_ZERO cfg \<and> mode12h cfg st then Inr 0
             else table_read segData (h sdiv 10)) (\<lambda>b0.
      thenF (table_read segData (h smod 10)) (\<lambda>b1.
      thenF (table_read segData (m sdiv 10)) (\<lambda>b2.
      thenF (table_read segData (m smod 10)) (\<lambda>b3.
      thenF (table_read segData (s sdiv 10)) (\<lambda>b4.
      thenF (table_read segData (s smod 10)) (\<lambda>b5.
      Inr (writeDisplay
            (put 5 b5 (put 4 b4 (put 3 b3 (put 2 b2 (put 1 b1 (put 0 b0 st))))))))))))))"

text \<open>\<open>showDate\<close> takes the values of \<^verbatim>\<open>month(t)\<close>, \<^verbatim>\<open>day(t)\<close> and \<^verbatim>\<open>year(t)\<close>.\<close>

definition showDate :: "int \<Rightarrow> int \<Rightarrow> int \<Rightarrow> clock \<Rightarrow> fault + clock" where
  "showDate m d yr st =
     (let y = yr - 2000 in
      thenF (table_read segData (m sdiv 10)) (\<lambda>b0.
      thenF (table_read segData (m smod 10)) (\<lambda>b1.
      thenF (table_read segData (d sdiv 10)) (\<lambda>b2.
      thenF (table_read segData (d smod 10)) (\<lambda>b3.
      thenF (table_read segData (y sdiv 10)) (\<lambda>b4.
      thenF (table_read segData (y smod 10)) (\<lambda>b5.
      Inr (writeDisplay
            (put 5 b5 (put 4 b4 (put 3 b3 (put 2 b2 (put 1 b1 (put 0 b0 st))))))))))))))"

function showString_loop :: "nat \<Rightarrow> string \<Rightarrow> clock \<Rightarrow> fault + clock" where
  "showString_loop i str st =
     (if i < strlen str
      then (case alpha (str ! i) of
              Inl e \<Rightarrow> Inl e
            | Inr b \<Rightarrow> (case write_digit i b st of
                          Inl e \<Rightarrow> Inl e
                        | Inr st' \<Rightarrow> showString_loop (i + 1) str st'))
      else Inr st)"
  by pat_completeness auto
termination
  by (relation "measure (\<lambda>(i, str, st). strlen str - i)") auto

definition showString :: "string \<Rightarrow> clock \<Rightarrow> fault + clock" where
  "showString str st = thenF (showString_loop 0 str st) (\<lambda>st'. Inr (writeDisplay st'))"

text \<open>
  Step 5: \<^verbatim>\<open>showTime\<close> over \<^verbatim>\<open>segments\<close>, with the switch \<^verbatim>\<open>FORMAT_12HR\<close>; its array
  \<^verbatim>\<open>tube[6]\<close> and its \<^verbatim>\<open>writeDisplay\<close> are those of the main sketch under another name.
\<close>

definition showTime_step5 :: "bool \<Rightarrow> int \<Rightarrow> int \<Rightarrow> int \<Rightarrow> clock \<Rightarrow> fault + clock" where
  "showTime_step5 FORMAT_12HR h0 m s st =
     (let h = (if FORMAT_12HR then to12 h0 else h0) in
      thenF (table_read segments (h sdiv 10)) (\<lambda>b0.
      thenF (table_read segments (h smod 10)) (\<lambda>b1.
      thenF (table_read segments (m sdiv 10)) (\<lambda>b2.
      thenF (table_read segments (m smod 10)) (\<lambda>b3.
      thenF (table_read segments (s sdiv 10)) (\<lambda>b4.
      thenF (table_read segments (s smod 10)) (\<lambda>b5.
      Inr (writeDisplay
            (put 5 b5 (put 4 b4 (put 3 b3 (put 2 b2 (put 1 b1 (put 0 b0 st))))))))))))))"

text \<open>The frame an encoder leaves in \<open>digit\<close>, or the fault it stopped at.\<close>

definition frame_of :: "fault + clock \<Rightarrow> fault + byte list" where
  "frame_of r = (case r of Inl e \<Rightarrow> Inl e | Inr st \<Rightarrow> Inr (digit st))"

section \<open>Auxiliary facts\<close>

declare alpha_scan.simps [simp del]
declare writeDisplay_loop.simps [simp del]
declare showString_loop.simps [simp del]

lemma strlen_knownChars: "strlen knownChars = 48"
  by (simp add: strlen_def knownChars_def)

lemma length_knownChars: "length knownChars = 48"
  by (simp add: knownChars_def)

lemma length_segData: "length segData = 49"
  by (simp add: segData_def)

lemma distinct_knownChars: "distinct knownChars"
  by (simp add: knownChars_def)

text \<open>The scan stops at the first index holding \<open>c\<close>, or at the terminator.\<close>

lemma alpha_scan_miss:
  "\<forall>k. i \<le> k \<and> k < strlen knownChars \<longrightarrow> knownChars ! k \<noteq> c \<Longrightarrow> i \<le> strlen knownChars
   \<Longrightarrow> alpha_scan c i = strlen knownChars"
proof (induction c i rule: alpha_scan.induct)
  case (1 c i)
  show ?case
  proof (cases "i < strlen knownChars")
    case True
    with 1 have ne: "c \<noteq> knownChars ! i" by auto
    have "alpha_scan c (i + 1) = strlen knownChars"
      using 1 True ne by auto
    then show ?thesis using True ne by (subst alpha_scan.simps) simp
  next
    case False
    with 1 show ?thesis by (subst alpha_scan.simps) simp
  qed
qed

lemma alpha_scan_hit:
  "i \<le> j \<Longrightarrow> j < strlen knownChars \<Longrightarrow> knownChars ! j = c
   \<Longrightarrow> \<forall>k. i \<le> k \<and> k < j \<longrightarrow> knownChars ! k \<noteq> c
   \<Longrightarrow> alpha_scan c i = j"
proof (induction c i rule: alpha_scan.induct)
  case (1 c i)
  show ?case
  proof (cases "i = j")
    case True
    with 1 show ?thesis by (subst alpha_scan.simps) simp
  next
    case False
    with 1 have lt: "i < j" by simp
    with 1 have ne: "c \<noteq> knownChars ! i" by auto
    have "alpha_scan c (i + 1) = j"
      using 1 lt ne by auto
    then show ?thesis using lt ne 1 by (subst alpha_scan.simps) simp
  qed
qed

lemma alpha_scan_unknown: "c \<notin> set knownChars \<Longrightarrow> alpha_scan c 0 = 48"
proof -
  assume a: "c \<notin> set knownChars"
  have "\<forall>k. 0 \<le> k \<and> k < strlen knownChars \<longrightarrow> knownChars ! k \<noteq> c"
    using a by (auto simp: strlen_knownChars length_knownChars)
  then show ?thesis
    using alpha_scan_miss [of 0 c] by (simp add: strlen_knownChars)
qed

lemma alpha_scan_known: "i < length knownChars \<Longrightarrow> alpha_scan (knownChars ! i) 0 = i"
proof -
  assume a: "i < length knownChars"
  have "\<forall>k. 0 \<le> k \<and> k < i \<longrightarrow> knownChars ! k \<noteq> knownChars ! i"
    using a distinct_knownChars by (auto simp: nth_eq_iff_index_eq)
  then show ?thesis
    using alpha_scan_hit [of 0 i "knownChars ! i"] a
    by (simp add: strlen_knownChars length_knownChars)
qed

lemma alpha_at: "i < length knownChars \<Longrightarrow> alpha (knownChars ! i) = Inr (segData ! i)"
  by (simp add: alpha_def alpha_scan_known table_read_def length_segData length_knownChars)

lemma alpha_scan_le: "alpha_scan c 0 \<le> 48"
proof (cases "c \<in> set knownChars")
  case True
  then obtain i where "i < length knownChars" "knownChars ! i = c"
    by (auto simp: in_set_conv_nth)
  then show ?thesis using alpha_scan_known [of i] by (simp add: length_knownChars)
next
  case False
  then show ?thesis by (simp add: alpha_scan_unknown)
qed

lemma alpha_total: "alpha c = Inr (segData ! alpha_scan c 0)"
  using alpha_scan_le [of c] by (simp add: alpha_def table_read_def length_segData)

text \<open>Digit splitting, the frame writes and the transport.\<close>

lemma sdiv10_nonneg: "0 \<le> a \<Longrightarrow> a sdiv 10 = a div (10::int)"
  by (simp add: signed_divide_int_def sgn_if)

lemma smod10_nonneg: "0 \<le> a \<Longrightarrow> a smod 10 = a mod (10::int)"
  by (simp add: signed_modulo_int_def sgn_if)

lemma length6_cases:
  assumes "length xs = 6"
  obtains a b c d e f where "xs = [a, b, c, d, e, f]"
  using assms by (auto simp: length_Suc_conv eval_nat_numeral)

lemma put_all:
  assumes "wf_clock st"
  shows "put 5 b5 (put 4 b4 (put 3 b3 (put 2 b2 (put 1 b1 (put 0 b0 st)))))
         = st\<lparr>digit := [b0, b1, b2, b3, b4, b5]\<rparr>"
proof -
  from assms have "length (digit st) = 6" by (simp add: wf_clock_def)
  then obtain a b c d e f where "digit st = [a, b, c, d, e, f]" by (rule length6_cases)
  then show ?thesis by (simp add: put_def)
qed

lemma writeDisplay_loop_bus:
  "- 1 \<le> i \<Longrightarrow> writeDisplay_loop i st
     = st\<lparr>bus := bus st @ map (\<lambda>k. Transfer (read_digit st k)) (rev [0..i])\<rparr>"
proof (induction i st rule: writeDisplay_loop.induct)
  case (1 i st)
  show ?case
  proof (cases "0 \<le> i")
    case True
    have rd: "read_digit (SPI_transfer v st) k = read_digit st k" for v k
      by (simp add: read_digit_def SPI_transfer_def)
    have "writeDisplay_loop i st = writeDisplay_loop (i - 1) (SPI_transfer (read_digit st i) st)"
      using True by (subst writeDisplay_loop.simps) simp
    also have "\<dots> = (SPI_transfer (read_digit st i) st)\<lparr>bus := bus (SPI_transfer (read_digit st i) st)
         @ map (\<lambda>k. Transfer (read_digit st k)) (rev [0..i - 1])\<rparr>"
      using 1 True by (simp add: rd)
    also have "\<dots> = st\<lparr>bus := bus st @ map (\<lambda>k. Transfer (read_digit st k)) (rev [0..i])\<rparr>"
      using True by (simp add: SPI_transfer_def upto_rec2 [of 0 i])
    finally show ?thesis .
  next
    case False
    with 1 have "i = - 1" by simp
    then show ?thesis by (subst writeDisplay_loop.simps) simp
  qed
qed

lemma upto_0_6: "[0..6::int] = [0, 1, 2, 3, 4, 5, 6]"
  by (simp add: upto.simps)

lemma writeDisplay_eq:
  assumes "wf_clock st"
  shows "writeDisplay st = st\<lparr>bus := bus st @ Transfer (Inl OutOfBounds)
           # map (\<lambda>b. Transfer (Inr b)) (rev (digit st)) @ [Latch HIGH, Latch LOW]\<rparr>"
proof -
  from assms have "length (digit st) = 6" by (simp add: wf_clock_def)
  then obtain a b c d e f where "digit st = [a, b, c, d, e, f]" by (rule length6_cases)
  then show ?thesis
    by (simp add: writeDisplay_def writeDisplay_loop_bus upto_0_6 read_digit_def
        digitalWrite_LATCH_def)
qed

lemma digit_writeDisplay: "digit (writeDisplay st) = digit st"
  by (simp add: writeDisplay_def writeDisplay_loop_bus digitalWrite_LATCH_def)

lemma seg_read: "0 \<le> i \<Longrightarrow> i < 49 \<Longrightarrow> table_read segData i = Inr (segData ! nat i)"
  by (simp add: table_read_def segData_def)

lemma seg_split:
  assumes "0 \<le> x" "x < 490"
  shows "table_read segData (x sdiv 10) = Inr (segData ! nat (x div 10))"
    and "table_read segData (x smod 10) = Inr (segData ! nat (x mod 10))"
  using assms by (simp_all add: sdiv10_nonneg smod10_nonneg seg_read)

lemma to12_cases: "to12 h = (if h = 0 then 12 else if h > 12 then h - 12 else h)"
  by (simp add: to12_def)

lemma showTime_frame:
  assumes wf: "wf_clock st" and h: "0 \<le> h" "h < 490" and m: "0 \<le> m" "m < 490"
    and s: "0 \<le> s" "s < 490" and h': "h' = (if mode12h cfg st then to12 h else h)"
  shows "showTime cfg h m s st =
     Inr (writeDisplay (st\<lparr>digit :=
       [if h' < 10 \<and> \<not> HOUR_LEADING_ZERO cfg \<and> mode12h cfg st then 0
        else segData ! nat (h' div 10),
        segData ! nat (h' mod 10),
        segData ! nat (m div 10), segData ! nat (m mod 10),
        segData ! nat (s div 10), segData ! nat (s mod 10)]\<rparr>))"
proof -
  have b: "0 \<le> h'" "h' < 490" using h by (auto simp: h' to12_cases)
  show ?thesis
    unfolding showTime_def Let_def h' [symmetric] put_all [OF wf]
    by (simp add: seg_split b m s thenF_def)
qed

lemma showDate_frame:
  assumes wf: "wf_clock st" and m: "0 \<le> m" "m < 490" and d: "0 \<le> d" "d < 490"
    and y: "2000 \<le> yr" "yr < 2490"
  shows "showDate m d yr st =
     Inr (writeDisplay (st\<lparr>digit :=
       [segData ! nat (m div 10), segData ! nat (m mod 10),
        segData ! nat (d div 10), segData ! nat (d mod 10),
        segData ! nat ((yr - 2000) div 10), segData ! nat ((yr - 2000) mod 10)]\<rparr>))"
proof -
  have b: "0 \<le> yr - 2000" "yr - 2000 < 490" using y by auto
  show ?thesis
    unfolding showDate_def Let_def put_all [OF wf]
    by (simp add: seg_split [OF b] seg_split [OF m] seg_split [OF d] thenF_def)
qed

lemma showString_loop_frame:
  "i \<le> strlen str \<Longrightarrow> strlen str \<le> 6 \<Longrightarrow> length (digit st) = 6 \<Longrightarrow>
   \<exists>fr. showString_loop i str st = Inr (st\<lparr>digit := fr\<rparr>) \<and> length fr = 6
     \<and> (\<forall>k. k < i \<or> strlen str \<le> k \<longrightarrow> fr ! k = digit st ! k)
     \<and> (\<forall>k. i \<le> k \<and> k < strlen str \<longrightarrow> fr ! k = segData ! alpha_scan (str ! k) 0)"
proof (induction i str st rule: showString_loop.induct)
  case (1 i str st)
  show ?case
  proof (cases "i < strlen str")
    case False
    with 1 have "i = strlen str" by simp
    then have "showString_loop i str st = Inr (st\<lparr>digit := digit st\<rparr>)"
      by (subst showString_loop.simps) simp
    with 1 \<open>i = strlen str\<close> show ?thesis
      by (intro exI [of _ "digit st"]) auto
  next
    case True
    define b where "b = segData ! alpha_scan (str ! i) 0"
    have a: "alpha (str ! i) = Inr b" by (simp add: alpha_total b_def)
    have i6: "i < 6" using True 1 by simp
    have w: "write_digit i b st = Inr (put i b st)" using i6 by (simp add: write_digit_def)
    have len: "length (digit (put i b st)) = 6" using 1 by (simp add: put_def)
    from 1(1) [OF True a w] True 1 len
    obtain fr where fr: "showString_loop (i + 1) str (put i b st) = Inr ((put i b st)\<lparr>digit := fr\<rparr>)"
      "length fr = 6"
      "\<forall>k. k < i + 1 \<or> strlen str \<le> k \<longrightarrow> fr ! k = digit (put i b st) ! k"
      "\<forall>k. i + 1 \<le> k \<and> k < strlen str \<longrightarrow> fr ! k = segData ! alpha_scan (str ! k) 0"
      by auto
    have s: "showString_loop i str st = Inr (st\<lparr>digit := fr\<rparr>)"
      using True a w fr(1) by (subst showString_loop.simps) (simp add: put_def)
    have old: "fr ! k = digit st ! k" if "k < i \<or> strlen str \<le> k" for k
    proof -
      from that True have ne: "k \<noteq> i" by auto
      from that have "k < i + 1 \<or> strlen str \<le> k" by auto
      with fr(3) have "fr ! k = digit (put i b st) ! k" by blast
      with ne show ?thesis by (simp add: put_def)
    qed
    have new: "fr ! k = segData ! alpha_scan (str ! k) 0" if "i \<le> k" "k < strlen str" for k
    proof (cases "k = i")
      case True
      then have "fr ! k = digit (put i b st) ! i" using fr(3) by simp
      then show ?thesis using True i6 1 by (simp add: put_def b_def)
    next
      case False
      with that show ?thesis using fr(4) by simp
    qed
    show ?thesis using s fr(2) old new by blast
  qed
qed

text \<open>Concrete table entries, the power-on state and the sketch's switches.\<close>

lemma wf_power_on: "wf_clock power_on"
  by (simp add: wf_clock_def power_on_def)

lemma frame_of_writeDisplay: "frame_of (Inr (writeDisplay st)) = Inr (digit st)"
  by (simp add: frame_of_def digit_writeDisplay)

lemma seg_values:
  "segData ! 0 = 0xE7" "segData ! 1 = 0x41" "segData ! 2 = 0xB3" "segData ! 3 = 0xF1"
  "segData ! 4 = 0x55" "segData ! 5 = 0xF4" "segData ! 6 = 0xF6" "segData ! 7 = 0x61"
  "segData ! 8 = 0xF7" "segData ! 9 = 0xF5" "segData ! Suc 0 = 0x41"
  by (simp_all add: segData_def)

lemma alpha_digits:
  "alpha CHR ''0'' = Inr 0xE7" "alpha CHR ''1'' = Inr 0x41" "alpha CHR ''2'' = Inr 0xB3"
  "alpha CHR ''3'' = Inr 0xF1" "alpha CHR ''4'' = Inr 0x55" "alpha CHR ''5'' = Inr 0xF4"
  "alpha CHR ''6'' = Inr 0xF6" "alpha CHR ''7'' = Inr 0x61" "alpha CHR ''8'' = Inr 0xF7"
  "alpha CHR ''9'' = Inr 0xF5"
  using alpha_at [of 0] alpha_at [of 1] alpha_at [of 2] alpha_at [of 3] alpha_at [of 4]
    alpha_at [of 5] alpha_at [of 6] alpha_at [of 7] alpha_at [of 8] alpha_at [of 9]
  by (simp_all add: knownChars_def segData_def)

lemma digit_chars: "\<forall>d<10. ''0123456789'' ! d = knownChars ! d \<and> segments ! d = segData ! d"
  by (simp add: knownChars_def segData_def segments_def eval_nat_numeral All_less_Suc)

lemma mode12h_sketch: "mode12h sketch_config power_on" "\<not> HOUR_LEADING_ZERO sketch_config"
  by (simp_all add: mode12h_def sketch_config_def power_on_def)

text \<open>The duty table and the guarded read of \<open>setBrightness\<close>.\<close>

lemma data_decreasing: "sorted_wrt (\<lambda>a b. b < a) data"
  by (simp add: data_def)

lemma data_nth_less: "i < j \<Longrightarrow> j < 11 \<Longrightarrow> data ! j < data ! i"
  using data_decreasing by (simp add: sorted_wrt_iff_nth_less data_def)

lemma data_read: "0 \<le> i \<Longrightarrow> i \<le> 10 \<Longrightarrow> table_read data i = Inr (data ! nat i)"
  by (simp add: table_read_def data_def)

lemma setBrightness_in:
  "0 \<le> i \<Longrightarrow> i \<le> 10 \<Longrightarrow> setBrightness i st = Inr (st\<lparr>OE := Pwm (data ! nat i)\<rparr>)"
  by (simp add: setBrightness_def data_read thenF_def)

text \<open>A message of at most six characters: what \<open>showString\<close> leaves in the frame.\<close>

lemma showString_frame:
  assumes wf: "wf_clock st" and n: "strlen str \<le> 6"
  shows "\<exists>fr. showString str st = Inr (writeDisplay (st\<lparr>digit := fr\<rparr>)) \<and> length fr = 6
     \<and> (\<forall>k. strlen str \<le> k \<longrightarrow> fr ! k = digit st ! k)
     \<and> (\<forall>k. k < strlen str \<longrightarrow> alpha (str ! k) = Inr (fr ! k))"
proof -
  from wf have "length (digit st) = 6" by (simp add: wf_clock_def)
  with showString_loop_frame [of 0 str st] n
  obtain fr where fr: "showString_loop 0 str st = Inr (st\<lparr>digit := fr\<rparr>)" "length fr = 6"
    "\<forall>k. k < 0 \<or> strlen str \<le> k \<longrightarrow> fr ! k = digit st ! k"
    "\<forall>k. 0 \<le> k \<and> k < strlen str \<longrightarrow> fr ! k = segData ! alpha_scan (str ! k) 0"
    by auto
  have "showString str st = Inr (writeDisplay (st\<lparr>digit := fr\<rparr>))"
    using fr(1) by (simp add: showString_def thenF_def)
  then show ?thesis using fr(2,3,4) by (auto simp: alpha_total)
qed

text \<open>
  Where the encoders stay in bounds: fields from 0 to 489, a year from 2000 to 2489, a
  message of at most six characters.
\<close>

lemma encoders_in_bounds:
  "wf_clock st \<Longrightarrow>
     (0 \<le> h \<and> h < 490 \<and> 0 \<le> m \<and> m < 490 \<and> 0 \<le> s \<and> s < 490 \<longrightarrow>
        (\<exists>fr. frame_of (showTime cfg h m s st) = Inr fr \<and> length fr = 6))
     \<and> (0 \<le> mo \<and> mo < 490 \<and> 0 \<le> d \<and> d < 490 \<and> 2000 \<le> yr \<and> yr < 2490 \<longrightarrow>
        (\<exists>fr. frame_of (showDate mo d yr st) = Inr fr \<and> length fr = 6))
     \<and> (strlen str \<le> 6 \<longrightarrow>
        (\<exists>fr. frame_of (showString str st) = Inr fr \<and> length fr = 6))"
proof -
  assume wf: "wf_clock st"
  have t: "\<exists>fr. frame_of (showTime cfg h m s st) = Inr fr \<and> length fr = 6"
    if "0 \<le> h" "h < 490" "0 \<le> m" "m < 490" "0 \<le> s" "s < 490"
    using showTime_frame [OF wf that refl, of cfg] by (simp add: frame_of_writeDisplay)
  have d: "\<exists>fr. frame_of (showDate mo d yr st) = Inr fr \<and> length fr = 6"
    if "0 \<le> mo" "mo < 490" "0 \<le> d" "d < 490" "2000 \<le> yr" "yr < 2490"
    using showDate_frame [OF wf that] by (simp add: frame_of_writeDisplay)
  have s: "\<exists>fr. frame_of (showString str st) = Inr fr \<and> length fr = 6" if "strlen str \<le> 6"
    using showString_frame [OF wf that] by (auto simp: frame_of_writeDisplay)
  show ?thesis using t d s by blast
qed

text \<open>A negative two-digit year: one of its two table reads is below the table.\<close>

lemma negative_split_faults:
  assumes "y < 0"
  shows "table_read segData (y sdiv 10) = Inl OutOfBounds
         \<or> table_read segData (y smod 10) = Inl OutOfBounds"
proof (cases "y \<le> - 10")
  case True
  then have "y sdiv 10 < 0"
    by (simp add: signed_divide_int_def sgn_if pos_imp_zdiv_pos_iff)
  then show ?thesis by (simp add: table_read_def)
next
  case False
  with assms have "y smod 10 = y" by (simp add: signed_modulo_int_def sgn_if)
  with assms show ?thesis by (simp add: table_read_def)
qed

lemma showDate_before_2000: "yr < 2000 \<Longrightarrow> showDate m d yr st = Inl OutOfBounds"
proof -
  assume "yr < 2000"
  then have "yr - 2000 < 0" by simp
  from negative_split_faults [OF this] show ?thesis
    unfolding showDate_def Let_def thenF_def
    by (auto split: sum.splits) (metis fault.exhaust)+
qed

section \<open>Glyph table: the claims\<close>

text \<open>
  C5. For every character that does not occur in \<open>knownChars\<close>, the scan of \<open>alpha\<close> runs to
  the end of \<open>knownChars\<close>; \<open>segData\<close> is one entry longer than \<open>knownChars\<close>, that last entry is
  the all-segments-off pattern, and it is what \<open>alpha\<close> returns, the read being in bounds.
\<close>

theorem alpha_not_found:
  "c \<notin> set knownChars \<Longrightarrow>
     alpha c = Inr 0x00 \<and> alpha_scan c 0 = strlen knownChars
     \<and> length segData = strlen knownChars + 1 \<and> last segData = 0x00"
  by (simp add: alpha_def alpha_scan_unknown strlen_knownChars table_read_def segData_def)

theorem alpha_not_found_witness:
  "CHR ''x'' \<notin> set knownChars \<and> alpha CHR ''x'' = Inr 0x00
   \<and> alpha_scan CHR ''x'' 0 = strlen knownChars"
proof -
  have h: "CHR ''x'' \<notin> set knownChars" by (simp add: knownChars_def)
  show ?thesis using h alpha_not_found [OF h] by simp
qed

text \<open>
  C6. For every index of \<open>knownChars\<close>, \<open>alpha\<close> applied to the character at that index returns
  the entry of \<open>segData\<close> at the same index; in particular the patterns of the characters 0,
  A and space are 0b11100111, 0b01110111 and 0b00000000.
\<close>

theorem alpha_known_char:
  "(\<forall>i < length knownChars. alpha (knownChars ! i) = Inr (segData ! i))
   \<and> alpha CHR ''0'' = Inr 0xE7 \<and> alpha CHR ''A'' = Inr 0x77 \<and> alpha CHR '' '' = Inr 0x00"
proof -
  have "alpha CHR ''0'' = Inr 0xE7"
    using alpha_at [of 0] by (simp add: knownChars_def segData_def)
  moreover have "alpha CHR ''A'' = Inr 0x77"
    using alpha_at [of 10] by (simp add: knownChars_def segData_def)
  moreover have "alpha CHR '' '' = Inr 0x00"
    using alpha_at [of 38] by (simp add: knownChars_def segData_def)
  ultimately show ?thesis by (simp add: alpha_at)
qed

theorem alpha_known_char_witness:
  "(23::nat) < length knownChars \<and> knownChars ! 23 = CHR ''L'' \<and> alpha CHR ''L'' = Inr 0x86"
proof -
  have h: "(23::nat) < length knownChars" by (simp add: knownChars_def)
  have c: "knownChars ! 23 = CHR ''L''" by (simp add: knownChars_def)
  have s: "segData ! 23 = 0x86" by (simp add: segData_def)
  from alpha_known_char have "alpha (knownChars ! 23) = Inr (segData ! 23)" using h by blast
  then show ?thesis using h c s by simp
qed

text \<open>
  C9. For every digit 0 to 9, reading the numeric table at the digit's index, whether
  \<open>segData\<close> as \<open>showTime\<close> and \<open>showDate\<close> read it or \<open>segments\<close> of the Step 5 sketch, gives
  the pattern that \<open>alpha\<close> returns for the digit's character.
\<close>

theorem digit_tables_agree:
  "d < 10 \<Longrightarrow> table_read segData (int d) = alpha (''0123456789'' ! d)
     \<and> table_read segments (int d) = alpha (''0123456789'' ! d)"
proof -
  assume d: "d < 10"
  then have e: "''0123456789'' ! d = knownChars ! d" "segments ! d = segData ! d"
    using digit_chars by auto
  have "alpha (knownChars ! d) = Inr (segData ! d)"
    using d by (simp add: alpha_at length_knownChars)
  moreover have "table_read segData (int d) = Inr (segData ! d)"
    using d by (simp add: table_read_def length_segData)
  moreover have "table_read segments (int d) = Inr (segments ! d)"
    using d by (simp add: table_read_def segments_def)
  ultimately show ?thesis using e by simp
qed

theorem digit_tables_agree_witness:
  "(7::nat) < 10 \<and> table_read segData 7 = alpha CHR ''7'' \<and> table_read segments 7 = alpha CHR ''7''
   \<and> table_read segments 7 = Inr 0x61"
proof -
  have h: "(7::nat) < 10" by simp
  have "table_read segments 7 = Inr 0x61" by (simp add: table_read_def segments_def)
  then show ?thesis using digit_tables_agree [OF h] by simp
qed

section \<open>Display transport: the claims\<close>

text \<open>
  C1. \<open>writeDisplay\<close> is meant to send one byte per tube, six in all, position 5 first and
  position 0 last, and then to pulse the latch once. Its loop starts at index 6, not 5: on
  the frame 12 00 00 it makes seven transfers, the first of them reading \<^verbatim>\<open>digit[6]\<close>
  beyond the six-byte array, then positions 5 down to 0, then latch high and latch low.
\<close>

theorem writeDisplay_seven_transfers:
  "bus (writeDisplay (power_on\<lparr>digit := [0x41, 0xB3, 0xE7, 0xE7, 0xE7, 0xE7]\<rparr>)) =
     [Transfer (Inl OutOfBounds), Transfer (Inr 0xE7), Transfer (Inr 0xE7), Transfer (Inr 0xE7),
      Transfer (Inr 0xE7), Transfer (Inr 0xB3), Transfer (Inr 0x41), Latch HIGH, Latch LOW]"
  by (simp add: writeDisplay_eq wf_clock_def power_on_def)

text \<open>
  C7. For a level from 0 to 10 \<open>setBrightness\<close> applies the table entry of that level to the
  output-enable pin; for every other level it returns the state unchanged, and in neither
  case is there a fault.
\<close>

theorem setBrightness_levels:
  "(0 \<le> lvl \<and> lvl \<le> 10 \<longrightarrow> setBrightness lvl st = Inr (st\<lparr>OE := Pwm (data ! nat lvl)\<rparr>))
   \<and> (lvl < 0 \<or> 10 < lvl \<longrightarrow> setBrightness lvl st = Inr st)"
  by (auto simp: setBrightness_in) (auto simp: setBrightness_def)

theorem setBrightness_levels_witness:
  "setBrightness 11 (power_on\<lparr>OE := Pwm 100\<rparr>) = Inr (power_on\<lparr>OE := Pwm 100\<rparr>)
   \<and> setBrightness (- 1) (power_on\<lparr>OE := Pwm 100\<rparr>) = Inr (power_on\<lparr>OE := Pwm 100\<rparr>)
   \<and> setBrightness 5 power_on = Inr (power_on\<lparr>OE := Pwm 100\<rparr>)"
  using setBrightness_levels [of 11 "power_on\<lparr>OE := Pwm 100\<rparr>"]
    setBrightness_levels [of "- 1" "power_on\<lparr>OE := Pwm 100\<rparr>"]
    setBrightness_levels [of 5 power_on]
  by (simp add: data_def)

text \<open>
  C3, as the code has it. The output-enable pin is active low, and the table falls as the
  level rises: for levels \<open>i < j\<close> between 0 and 10 the value applied for \<open>j\<close> is strictly
  smaller than the value applied for \<open>i\<close>. Level 0 applies 255 (always off), level 5
  applies 100 and level 10 applies 0 (full brightness).
\<close>

theorem setBrightness_decreasing:
  "0 \<le> i \<Longrightarrow> i < j \<Longrightarrow> j \<le> 10 \<Longrightarrow>
     setBrightness i st = Inr (st\<lparr>OE := Pwm (data ! nat i)\<rparr>)
     \<and> setBrightness j st = Inr (st\<lparr>OE := Pwm (data ! nat j)\<rparr>)
     \<and> data ! nat j < data ! nat i
     \<and> data ! 0 = 255 \<and> data ! 5 = 100 \<and> data ! 10 = 0"
proof -
  assume a: "0 \<le> i" "i < j" "j \<le> 10"
  then have "nat i < nat j" "nat j < 11" by auto
  then have "data ! nat j < data ! nat i" by (rule data_nth_less)
  moreover have "data ! 0 = 255 \<and> data ! 5 = 100 \<and> data ! 10 = 0" by (simp add: data_def)
  ultimately show ?thesis using a by (simp add: setBrightness_in)
qed

theorem setBrightness_decreasing_witness:
  "setBrightness 0 power_on = Inr (power_on\<lparr>OE := Pwm 255\<rparr>)
   \<and> setBrightness 5 power_on = Inr (power_on\<lparr>OE := Pwm 100\<rparr>)
   \<and> setBrightness 10 power_on = Inr (power_on\<lparr>OE := Pwm 0\<rparr>)
   \<and> (0 :: byte) < 100 \<and> (100 :: byte) < 255"
  using setBrightness_decreasing [of 0 5 power_on] setBrightness_decreasing [of 5 10 power_on]
  by (simp add: data_def)

text \<open>The values applied for the levels 0 and 5 are not in increasing order.\<close>

theorem setBrightness_not_increasing:
  "setBrightness 0 power_on = Inr (power_on\<lparr>OE := Pwm (data ! 0)\<rparr>)
   \<and> setBrightness 5 power_on = Inr (power_on\<lparr>OE := Pwm (data ! 5)\<rparr>)
   \<and> \<not> data ! 0 < data ! 5"
  by (simp add: setBrightness_def table_read_def thenF_def data_def)

section \<open>Encoders: the claims\<close>

text \<open>
  C2, as the code has it. In twelve-hour mode with the leading zero suppressed
  (\<open>HOUR_LEADING_ZERO\<close> false), \<open>showTime\<close> at 00:00:00 shows the hour as 12 and leaves the
  digit patterns 1, 2, 0, 0, 0, 0 in the frame: the first position is blanked only when the
  displayed hour is below 10, and 12 is not.
\<close>

theorem showTime_midnight:
  "wf_clock st \<Longrightarrow> mode12h cfg st \<Longrightarrow> \<not> HOUR_LEADING_ZERO cfg \<Longrightarrow>
     frame_of (showTime cfg 0 0 0 st) = Inr [0x41, 0xB3, 0xE7, 0xE7, 0xE7, 0xE7]
     \<and> map alpha ''120000'' = map Inr [0x41, 0xB3, 0xE7, 0xE7, 0xE7, 0xE7]"
proof -
  assume a: "wf_clock st" "mode12h cfg st" "\<not> HOUR_LEADING_ZERO cfg"
  have "showTime cfg 0 0 0 st
        = Inr (writeDisplay (st\<lparr>digit := [0x41, 0xB3, 0xE7, 0xE7, 0xE7, 0xE7]\<rparr>))"
    using a by (subst showTime_frame [where h' = 12]) (simp_all add: to12_cases seg_values)
  then show ?thesis by (simp add: frame_of_writeDisplay alpha_digits)
qed

theorem showTime_midnight_witness:
  "wf_clock power_on \<and> mode12h sketch_config power_on \<and> \<not> HOUR_LEADING_ZERO sketch_config
   \<and> frame_of (showTime sketch_config 0 0 0 power_on) = Inr [0x41, 0xB3, 0xE7, 0xE7, 0xE7, 0xE7]"
  using showTime_midnight [OF wf_power_on mode12h_sketch] wf_power_on mode12h_sketch by simp

text \<open>The frame at 00:00:00 is not blank, 2, 0, 0, 0, 0.\<close>

theorem showTime_midnight_not_blank:
  "mode12h sketch_config power_on \<and> \<not> HOUR_LEADING_ZERO sketch_config
   \<and> frame_of (showTime sketch_config 0 0 0 power_on) \<noteq> Inr [0x00, 0xB3, 0xE7, 0xE7, 0xE7, 0xE7]"
proof -
  have "showTime sketch_config 0 0 0 power_on
        = Inr (writeDisplay (power_on\<lparr>digit := [0x41, 0xB3, 0xE7, 0xE7, 0xE7, 0xE7]\<rparr>))"
    using wf_power_on mode12h_sketch
    by (subst showTime_frame [where h' = 12]) (simp_all add: to12_cases seg_values)
  then show ?thesis using mode12h_sketch by (simp add: frame_of_writeDisplay)
qed

text \<open>
  C8. For an hour from 0 to 23 the twelve-hour branch gives 12 for hour 0, the hour minus 12
  above 12, and the hour itself otherwise. In twelve-hour mode the frame holds the digits of
  that displayed hour (its tens digit blanked when it is below 10 and \<open>HOUR_LEADING_ZERO\<close> is
  false), of the minute and of the second; in twenty-four-hour mode it holds the digits of
  the hour as given. In twelve-hour mode with the leading zero shown, 13:05:09 gives the
  patterns of 0, 1, 0, 5, 0, 9, and in twenty-four-hour mode 23:59:00 gives those of
  2, 3, 5, 9, 0, 0; the Step 5 sketch gives the same two frames.
\<close>

theorem showTime_hours:
  "wf_clock st \<Longrightarrow> 0 \<le> h \<Longrightarrow> h \<le> 23 \<Longrightarrow> 0 \<le> m \<Longrightarrow> m \<le> 59 \<Longrightarrow> 0 \<le> s \<Longrightarrow> s \<le> 59 \<Longrightarrow>
     to12 h = (if h = 0 then 12 else if h > 12 then h - 12 else h)
     \<and> (mode12h cfg st \<longrightarrow>
          frame_of (showTime cfg h m s st) =
            Inr [if to12 h < 10 \<and> \<not> HOUR_LEADING_ZERO cfg then 0x00
                 else segData ! nat (to12 h div 10),
                 segData ! nat (to12 h mod 10),
                 segData ! nat (m div 10), segData ! nat (m mod 10),
                 segData ! nat (s div 10), segData ! nat (s mod 10)])
     \<and> (\<not> mode12h cfg st \<longrightarrow>
          frame_of (showTime cfg h m s st) =
            Inr [segData ! nat (h div 10), segData ! nat (h mod 10),
                 segData ! nat (m div 10), segData ! nat (m mod 10),
                 segData ! nat (s div 10), segData ! nat (s mod 10)])
     \<and> (mode12h cfg st \<and> HOUR_LEADING_ZERO cfg \<longrightarrow>
          frame_of (showTime cfg 13 5 9 st) = Inr [0xE7, 0x41, 0xE7, 0xF4, 0xE7, 0xF5])
     \<and> (\<not> mode12h cfg st \<longrightarrow>
          frame_of (showTime cfg 23 59 0 st) = Inr [0xB3, 0xF1, 0xF4, 0xF5, 0xE7, 0xE7])
     \<and> frame_of (showTime_step5 True 13 5 9 st) = Inr [0xE7, 0x41, 0xE7, 0xF4, 0xE7, 0xF5]
     \<and> frame_of (showTime_step5 False 23 59 0 st) = Inr [0xB3, 0xF1, 0xF4, 0xF5, 0xE7, 0xE7]
     \<and> map alpha ''010509'' = map Inr [0xE7, 0x41, 0xE7, 0xF4, 0xE7, 0xF5]
     \<and> map alpha ''235900'' = map Inr [0xB3, 0xF1, 0xF4, 0xF5, 0xE7, 0xE7]"
proof -
  assume wf: "wf_clock st" and r: "0 \<le> h" "h \<le> 23" "0 \<le> m" "m \<le> 59" "0 \<le> s" "s \<le> 59"
  have g: "showTime cfg h m s st =
     Inr (writeDisplay (st\<lparr>digit :=
       [if h' < 10 \<and> \<not> HOUR_LEADING_ZERO cfg \<and> mode12h cfg st then 0
        else segData ! nat (h' div 10),
        segData ! nat (h' mod 10),
        segData ! nat (m div 10), segData ! nat (m mod 10),
        segData ! nat (s div 10), segData ! nat (s mod 10)]\<rparr>))"
    if "h' = (if mode12h cfg st then to12 h else h)" for h'
    using wf r that by (intro showTime_frame) auto
  have c1: "mode12h cfg st \<longrightarrow>
          frame_of (showTime cfg h m s st) =
            Inr [if to12 h < 10 \<and> \<not> HOUR_LEADING_ZERO cfg then 0x00
                 else segData ! nat (to12 h div 10),
                 segData ! nat (to12 h mod 10),
                 segData ! nat (m div 10), segData ! nat (m mod 10),
                 segData ! nat (s div 10), segData ! nat (s mod 10)]"
    using g [of "to12 h"] by (simp add: frame_of_writeDisplay)
  have c2: "\<not> mode12h cfg st \<longrightarrow>
          frame_of (showTime cfg h m s st) =
            Inr [segData ! nat (h div 10), segData ! nat (h mod 10),
                 segData ! nat (m div 10), segData ! nat (m mod 10),
                 segData ! nat (s div 10), segData ! nat (s mod 10)]"
    using g [of h] by (simp add: frame_of_writeDisplay)
  have c3: "mode12h cfg st \<and> HOUR_LEADING_ZERO cfg \<longrightarrow>
          frame_of (showTime cfg 13 5 9 st) = Inr [0xE7, 0x41, 0xE7, 0xF4, 0xE7, 0xF5]"
    using wf
    by (auto simp: showTime_frame [where h' = 1] to12_cases seg_values frame_of_writeDisplay)
  have c4: "\<not> mode12h cfg st \<longrightarrow>
          frame_of (showTime cfg 23 59 0 st) = Inr [0xB3, 0xF1, 0xF4, 0xF5, 0xE7, 0xE7]"
    using wf by (auto simp: showTime_frame [where h' = 23] seg_values frame_of_writeDisplay)
  have c5: "frame_of (showTime_step5 True 13 5 9 st) = Inr [0xE7, 0x41, 0xE7, 0xF4, 0xE7, 0xF5]"
    unfolding showTime_step5_def Let_def put_all [OF wf]
    by (simp add: to12_cases table_read_def segments_def thenF_def frame_of_writeDisplay
        signed_divide_int_def signed_modulo_int_def)
  have c6: "frame_of (showTime_step5 False 23 59 0 st) = Inr [0xB3, 0xF1, 0xF4, 0xF5, 0xE7, 0xE7]"
    unfolding showTime_step5_def Let_def put_all [OF wf]
    by (simp add: table_read_def segments_def thenF_def frame_of_writeDisplay
        signed_divide_int_def signed_modulo_int_def)
  have c7: "map alpha ''010509'' = map Inr [0xE7, 0x41, 0xE7, 0xF4, 0xE7, 0xF5]"
    "map alpha ''235900'' = map Inr [0xB3, 0xF1, 0xF4, 0xF5, 0xE7, 0xE7]"
    by (simp_all add: alpha_digits)
  show ?thesis using c1 c2 c3 c4 c5 c6 c7 by (simp only: to12_cases simp_thms)
qed

theorem showTime_hours_witness:
  "wf_clock power_on \<and> mode12h (sketch_config\<lparr>HOUR_LEADING_ZERO := True\<rparr>) power_on
   \<and> to12 13 = 1
   \<and> frame_of (showTime (sketch_config\<lparr>HOUR_LEADING_ZERO := True\<rparr>) 13 5 9 power_on)
       = Inr [0xE7, 0x41, 0xE7, 0xF4, 0xE7, 0xF5]
   \<and> \<not> mode12h (sketch_config\<lparr>LOCAL_FORMAT_12HR := False\<rparr>) power_on
   \<and> frame_of (showTime (sketch_config\<lparr>LOCAL_FORMAT_12HR := False\<rparr>) 23 59 0 power_on)
       = Inr [0xB3, 0xF1, 0xF4, 0xF5, 0xE7, 0xE7]"
proof -
  have m1: "mode12h (sketch_config\<lparr>HOUR_LEADING_ZERO := True\<rparr>) power_on"
    "HOUR_LEADING_ZERO (sketch_config\<lparr>HOUR_LEADING_ZERO := True\<rparr>)"
    by (simp_all add: mode12h_def sketch_config_def power_on_def)
  have m2: "\<not> mode12h (sketch_config\<lparr>LOCAL_FORMAT_12HR := False\<rparr>) power_on"
    by (simp add: mode12h_def sketch_config_def power_on_def)
  have r: "(0::int) \<le> 13" "(13::int) \<le> 23" "(0::int) \<le> 5" "(5::int) \<le> 59"
    "(0::int) \<le> 9" "(9::int) \<le> 59"
    by simp_all
  show ?thesis
    using showTime_hours [OF wf_power_on r, of "sketch_config\<lparr>HOUR_LEADING_ZERO := True\<rparr>"]
      showTime_hours [OF wf_power_on r, of "sketch_config\<lparr>LOCAL_FORMAT_12HR := False\<rparr>"]
      m1 m2 wf_power_on
    by (simp add: seg_values)
qed

text \<open>
  C4. Every encoder call is meant to fill a frame with no table access out of bounds.
  \<open>showDate\<close> subtracts 2000 from the year and indexes \<open>segData\<close> with the quotient and the
  remainder, unchecked. For the date of a clock that has not been set, 1 January 1970, the
  two-digit year is -30 and the read of \<^verbatim>\<open>segData[y/10]\<close> is at index -3, before the
  table: the call has no frame to show.
\<close>

theorem showDate_unset_clock:
  "showDate 1 1 1970 power_on = Inl OutOfBounds
   \<and> (1970 - 2000) sdiv 10 = (- 3 :: int)
   \<and> table_read segData ((1970 - 2000) sdiv 10) = Inl OutOfBounds"
  by (simp add: showDate_def table_read_def thenF_def length_segData
      signed_divide_int_def signed_modulo_int_def)

text \<open>
  C10. For a string of length \<open>n\<close>, at most 6, \<open>showString\<close> writes the pattern of character
  \<open>k\<close> into position \<open>k\<close> for every \<open>k\<close> below \<open>n\<close>, and every position from \<open>n\<close> to 5 holds
  after the call the pattern it held before.
\<close>

theorem showString_keeps_tail:
  "wf_clock st \<Longrightarrow> strlen str = n \<Longrightarrow> n \<le> 6 \<Longrightarrow>
     \<exists>fr. frame_of (showString str st) = Inr fr \<and> length fr = 6
       \<and> (\<forall>k. k < n \<longrightarrow> alpha (str ! k) = Inr (fr ! k))
       \<and> (\<forall>k. n \<le> k \<and> k < 6 \<longrightarrow> fr ! k = digit st ! k)"
proof -
  assume wf: "wf_clock st" and n: "strlen str = n" "n \<le> 6"
  then have "strlen str \<le> 6" by simp
  from showString_frame [OF wf this] n show ?thesis
    by (auto simp: frame_of_writeDisplay)
qed

theorem showString_keeps_tail_witness:
  "wf_clock (power_on\<lparr>digit := [1, 2, 3, 4, 5, 6]\<rparr>) \<and> strlen ''Hi'' = 2
   \<and> frame_of (showString ''Hi'' (power_on\<lparr>digit := [1, 2, 3, 4, 5, 6]\<rparr>))
       = Inr [0x57, 0x40, 3, 4, 5, 6]"
proof -
  have w: "wf_clock (power_on\<lparr>digit := [1, 2, 3, 4, 5, 6]\<rparr>)" by (simp add: wf_clock_def)
  have l: "strlen ''Hi'' = 2" by (simp add: strlen_def)
  have e: "frame_of (showString ''Hi'' (power_on\<lparr>digit := [1, 2, 3, 4, 5, 6]\<rparr>))
       = Inr [0x57, 0x40, 3, 4, 5, 6]"
    by code_simp
  show ?thesis using showString_keeps_tail [OF w l] w l e by simp
qed

end
